theory Spec2Isabelle
  imports Complex_Main "HOL-Library.Word"
begin

section \<open>VoiceWaveVisualizer: the analysis and rendering pipeline\<close>

text \<open>
  The embedding follows \<^verbatim>\<open>src/components/VoiceWaveVisualizer.tsx\<close>. The elements of a
  \<^verbatim>\<open>Uint8Array\<close> are 8-bit words; every arithmetic operation of the source is on
  JavaScript Numbers, which are modelled as reals. On the frames the component reads
  (1024 samples, integer canvas sizes) the sums, the division by the frame length and
  the scalings by 4, 128 and 2 are exact in binary floating point; the divisions by 20
  and 50 and the products with the amplitude factor round there, and the model takes
  them as exact.
\<close>

type_synonym byte = "8 word"

subsection \<open>Loudness (lines 86--90)\<close>

text \<open>
  \<^verbatim>\<open>let sum = 0; for (i...) sum += Math.abs(dataArray[i] - 128);\<close>
  The loop visits the elements in order with the running sum as accumulator.
\<close>

fun sum_loop :: "byte list \<Rightarrow> real \<Rightarrow> real" where
  "sum_loop [] s = s"
| "sum_loop (d # ds) s = sum_loop ds (s + \<bar>real (unat d) - 128\<bar>)"

text \<open>
  \<^verbatim>\<open>Math.min((sum / bufferLength) * 4, 100)\<close>. For an empty buffer JavaScript computes
  \<^verbatim>\<open>0 / 0 = NaN\<close> where HOL's division returns 0; the component never reads an empty
  buffer (its length is the analyser's \<^verbatim>\<open>frequencyBinCount\<close>), and the theorems on
  \<open>newVolume\<close> assume a non-empty one.
\<close>

definition newVolume :: "byte list \<Rightarrow> real" where
  "newVolume samples = min ((sum_loop samples 0 / real (length samples)) * 4) 100"

subsection \<open>Dominant bin and pitch proxy (lines 94--103)\<close>

text \<open>
  \<^verbatim>\<open>for (i...) if (frequencyData[i] > maxValue) { maxValue = frequencyData[i]; maxIndex = i; }\<close>
  The state of the loop is the index \<open>i\<close> and the pair \<open>(maxValue, maxIndex)\<close>.
\<close>

fun max_loop :: "byte list \<Rightarrow> nat \<Rightarrow> nat \<times> nat \<Rightarrow> nat \<times> nat" where
  "max_loop [] i (maxValue, maxIndex) = (maxValue, maxIndex)"
| "max_loop (f # fs) i (maxValue, maxIndex) =
     (if unat f > maxValue then max_loop fs (Suc i) (unat f, i)
      else max_loop fs (Suc i) (maxValue, maxIndex))"

definition maxIndex :: "byte list \<Rightarrow> nat" where
  "maxIndex spectrum = snd (max_loop spectrum 0 (0, 0))"

definition normalizedPitch :: "byte list \<Rightarrow> real" where
  "normalizedPitch spectrum = min (real (maxIndex spectrum) / 20) 100"

text \<open>
  The specification's wording of the dominant bin, for comparison with the loop: the
  position of the first element that equals the maximum of the spectrum, and 0 when
  the spectrum is empty.
\<close>

fun index_of :: "nat \<Rightarrow> nat list \<Rightarrow> nat" where
  "index_of m [] = 0"
| "index_of m (x # xs) = (if x = m then 0 else Suc (index_of m xs))"

definition first_max_index :: "byte list \<Rightarrow> nat" where
  "first_max_index fs = (if fs = [] then 0 else index_of (Max (set (map unat fs))) (map unat fs))"

text \<open>
  The worst-case buffer of the specification: samples alternating between 0 and 255,
  starting with 0.
\<close>

fun alternating :: "byte list \<Rightarrow> bool" where
  "alternating [] = True"
| "alternating [a] = (a = 0)"
| "alternating (a # b # ds) = (a = 0 \<and> b = 255 \<and> alternating ds)"

subsection \<open>The platform objects the component holds\<close>

record analyser =
  fftSize :: nat

text \<open>
  Modelled from the spec: the platform's analyser node is not part of the sources. Its
  frequency-domain window has half the length of the time-domain window
  (\<^verbatim>\<open>frequencyBinCount = fftSize / 2\<close>: 1024 bins for the window size 2048).
\<close>

definition frequencyBinCount :: "analyser \<Rightarrow> nat" where
  "frequencyBinCount a = fftSize a div 2"

text \<open>
  The audio the analyser holds when a tick reads it: the current time-domain window and
  the current magnitude per bin, both by position. A read fills the caller's array from
  the front; positions beyond the window stay at the array's initial 0.
\<close>

record audio_window =
  timeSamples :: "nat \<Rightarrow> byte"
  binMagnitudes :: "nat \<Rightarrow> byte"

definition getByteTimeDomainData :: "analyser \<Rightarrow> audio_window \<Rightarrow> nat \<Rightarrow> byte list" where
  "getByteTimeDomainData a w n = map (\<lambda>i. if i < fftSize a then timeSamples w i else 0) [0..<n]"

definition getByteFrequencyData :: "analyser \<Rightarrow> audio_window \<Rightarrow> nat \<Rightarrow> byte list" where
  "getByteFrequencyData a w n =
     map (\<lambda>i. if i < frequencyBinCount a then binMagnitudes w i else 0) [0..<n]"

text \<open>The calls the tick makes on the 2D context, in the order it makes them.\<close>

datatype draw_cmd =
    FillStyle string
  | FillRect real real real real
  | LineWidth real
  | StrokeStyleHsl real nat nat
  | BeginPath
  | MoveTo real real
  | LineTo real real
  | Stroke

text \<open>
  The canvas element: its layout box, its bitmap size, whether \<^verbatim>\<open>getContext("2d")\<close>
  yields a context (it returns null otherwise), and the calls drawn since the bitmap was
  last reset (assigning \<^verbatim>\<open>canvas.width\<close> resets it).
\<close>

record canvas =
  clientWidth :: nat
  clientHeight :: nat
  width :: nat
  height :: nat
  context2d :: bool
  drawn :: "draw_cmd list"

subsection \<open>The component's state\<close>

text \<open>
  The three \<^verbatim>\<open>useState\<close> cells and the five refs of the component, followed by the
  part of the platform its calls act on: the number of audio contexts constructed (the
  source closes none), the device tracks that are live, the animation-frame callbacks
  that are pending, the last callback id handed out, and the number of errors logged.
  A media stream is the list of its tracks.
\<close>

record component =
  isListening :: bool
  volume :: real
  pitch :: real
  audioContextRef :: "nat option"
  analyserRef :: "analyser option"
  mediaStreamRef :: "nat list option"
  animationFrameRef :: "nat option"
  canvasRef :: "canvas option"
  audioContexts :: nat
  liveTracks :: "nat list"
  pendingFrames :: "nat list"
  lastFrameId :: nat
  errorsLogged :: nat

text \<open>
  \<^verbatim>\<open>animationFrameRef.current = requestAnimationFrame(updateWaveform)\<close>: the platform
  hands out the next id (ids start at 1) and queues the callback.
\<close>

definition requestAnimationFrame :: "component \<Rightarrow> component" where
  "requestAnimationFrame s =
     (let handle = Suc (lastFrameId s)
      in s\<lparr>lastFrameId := handle,
            pendingFrames := pendingFrames s @ [handle],
            animationFrameRef := Some handle\<rparr>)"

definition cancelAnimationFrame :: "nat \<Rightarrow> component \<Rightarrow> component" where
  "cancelAnimationFrame handle s = s\<lparr>pendingFrames := removeAll handle (pendingFrames s)\<rparr>"

subsection \<open>The render tick: \<^verbatim>\<open>updateWaveform\<close> (lines 58--137)\<close>

text \<open>\<^verbatim>\<open>amplitudeFactor\<close> (line 118).\<close>

definition amplitudeFactor :: "real \<Rightarrow> real \<Rightarrow> real" where
  "amplitudeFactor vol np = (vol / 50) * (np / 50 + 0.5)"

text \<open>
  The drawing loop (lines 120--131): \<open>i\<close> is the loop index, \<open>x\<close> the running
  abscissa to which \<^verbatim>\<open>sliceWidth\<close> is added after each vertex; \<open>h\<close> is the canvas
  height.
\<close>

fun draw_loop :: "byte list \<Rightarrow> nat \<Rightarrow> real \<Rightarrow> real \<Rightarrow> real \<Rightarrow> real \<Rightarrow> draw_cmd list" where
  "draw_loop [] i x sliceWidth amp h = []"
| "draw_loop (d # ds) i x sliceWidth amp h =
     (let v = (real (unat d) / 128 - 1) * amp;
          y = h / 2 + (v * h) / 2
      in (if i = 0 then MoveTo x y else LineTo x y)
           # draw_loop ds (Suc i) (x + sliceWidth) sliceWidth amp h)"

text \<open>
  Lines 75--83: both arrays are allocated with \<^verbatim>\<open>analyser.frequencyBinCount\<close> elements
  and filled by the analyser.
\<close>

definition dataArray :: "analyser \<Rightarrow> audio_window \<Rightarrow> byte list" where
  "dataArray a w = (let bufferLength = frequencyBinCount a in getByteTimeDomainData a w bufferLength)"

definition frequencyData :: "analyser \<Rightarrow> audio_window \<Rightarrow> byte list" where
  "frequencyData a w = getByteFrequencyData a w (frequencyBinCount a)"

text \<open>Lines 70--134, entered once the analyser, the canvas and its context are there.\<close>

definition render :: "analyser \<Rightarrow> canvas \<Rightarrow> audio_window \<Rightarrow> component \<Rightarrow> component" where
  "render a c w s =
     (let cw = clientWidth c; ch = clientHeight c;
          bufferLength = frequencyBinCount a;
          vol = newVolume (dataArray a w);
          np = normalizedPitch (frequencyData a w);
          sliceWidth = real cw / real bufferLength;
          amp = amplitudeFactor vol np;
          cmds = [FillStyle ''rgb(20, 20, 30)'', FillRect 0 0 (real cw) (real ch),
                  LineWidth 3, StrokeStyleHsl (np * 2) 100 50, BeginPath]
                 @ draw_loop (dataArray a w) 0 0 sliceWidth amp (real ch)
                 @ [LineTo (real cw) (real ch / 2), Stroke]
      in s\<lparr>volume := vol, pitch := np,
            canvasRef := Some (c\<lparr>width := cw, height := ch, drawn := cmds\<rparr>)\<rparr>)"

definition updateWaveform :: "audio_window \<Rightarrow> component \<Rightarrow> component" where
  "updateWaveform w s =
     (case analyserRef s of
        None \<Rightarrow> requestAnimationFrame s
      | Some a \<Rightarrow>
          (case canvasRef s of
             None \<Rightarrow> requestAnimationFrame s
           | Some c \<Rightarrow>
               if \<not> context2d c then s
               else requestAnimationFrame (render a c w s)))"

subsection \<open>\<^verbatim>\<open>startListening\<close> (lines 14--38) and \<^verbatim>\<open>stopListening\<close> (lines 41--55)\<close>

text \<open>
  The outcome of \<^verbatim>\<open>getUserMedia\<close>: a stream (its tracks, which are live), or a
  rejection (permission denied, no input device).
\<close>

datatype user_media = Granted "nat list" | Denied

text \<open>
  The part of \<^verbatim>\<open>startListening\<close> before the \<^verbatim>\<open>await\<close>: a new audio context is
  constructed and stored (line 17), then the device is requested.
\<close>

definition startListening_request :: "component \<Rightarrow> component" where
  "startListening_request s =
     s\<lparr>audioContexts := Suc (audioContexts s),
       audioContextRef := Some (Suc (audioContexts s))\<rparr>"

text \<open>
  The part after the \<^verbatim>\<open>await\<close>. A rejection is caught and logged (line 36). So is
  the TypeError of line 25 when \<^verbatim>\<open>audioContextRef.current\<close> is null, which happens
  after line 22 has stored the stream.
\<close>

definition startListening_resume :: "user_media \<Rightarrow> audio_window \<Rightarrow> component \<Rightarrow> component" where
  "startListening_resume r w s =
     (case r of
        Denied \<Rightarrow> s\<lparr>errorsLogged := Suc (errorsLogged s)\<rparr>
      | Granted stream \<Rightarrow>
          (let s1 = s\<lparr>liveTracks := liveTracks s @ stream, mediaStreamRef := Some stream\<rparr>
           in case audioContextRef s1 of
                None \<Rightarrow> s1\<lparr>errorsLogged := Suc (errorsLogged s1)\<rparr>
              | Some ctx \<Rightarrow>
                  updateWaveform w
                    (s1\<lparr>analyserRef := Some \<lparr>fftSize = 2048\<rparr>, isListening := True\<rparr>)))"

definition startListening :: "user_media \<Rightarrow> audio_window \<Rightarrow> component \<Rightarrow> component" where
  "startListening r w s = startListening_resume r w (startListening_request s)"

text \<open>
  \<^verbatim>\<open>getTracks().forEach((track) => track.stop())\<close> ends each track of the stream in
  turn. A callback id is truthy when it is not 0.
\<close>

definition stopListening :: "component \<Rightarrow> component" where
  "stopListening s =
     (let s1 = (case mediaStreamRef s of
                  None \<Rightarrow> s
                | Some stream \<Rightarrow>
                    s\<lparr>liveTracks := fold removeAll stream (liveTracks s),
                      mediaStreamRef := None\<rparr>);
          s2 = (case animationFrameRef s1 of
                  None \<Rightarrow> s1
                | Some handle \<Rightarrow>
                    if handle \<noteq> 0
                    then (cancelAnimationFrame handle s1)\<lparr>animationFrameRef := None\<rparr>
                    else s1)
      in s2\<lparr>isListening := False, volume := 0, pitch := 0\<rparr>)"

subsection \<open>The events that drive the component\<close>

text \<open>
  The button (line 181) calls \<^verbatim>\<open>stopListening\<close> when \<^verbatim>\<open>isListening\<close> holds and
  \<^verbatim>\<open>startListening\<close> otherwise. The display runs the oldest pending animation-frame
  callback, which is always \<^verbatim>\<open>updateWaveform\<close>. In \<open>onClick\<close>, \<open>step\<close> and \<open>run\<close>
  a click that starts is taken together with the settling of its device request: these
  are the runs in which every start has settled before the next click or frame. The
  runs without that restriction are those of \<open>drive\<close> below.
\<close>

definition onClick :: "user_media \<Rightarrow> audio_window \<Rightarrow> component \<Rightarrow> component" where
  "onClick r w s = (if isListening s then stopListening s else startListening r w s)"

definition animationFrame :: "audio_window \<Rightarrow> component \<Rightarrow> component" where
  "animationFrame w s =
     (case pendingFrames s of
        [] \<Rightarrow> s
      | handle # rest \<Rightarrow> updateWaveform w (s\<lparr>pendingFrames := rest\<rparr>))"

datatype event = Click user_media audio_window | Frame audio_window

fun step :: "event \<Rightarrow> component \<Rightarrow> component" where
  "step (Click r w) s = onClick r w s"
| "step (Frame w) s = animationFrame w s"

definition run :: "event list \<Rightarrow> component \<Rightarrow> component" where
  "run es s = fold step es s"

text \<open>
  The handler as it runs: \<^verbatim>\<open>startListening\<close> returns to the event loop at the
  \<^verbatim>\<open>await\<close> of line 21 with \<^verbatim>\<open>isListening\<close> still false, so further clicks and
  frames can fall before the request settles. \<open>Press\<close> is a click (for a start, only
  the part before the \<^verbatim>\<open>await\<close>), \<open>Settle\<close> the settling of the oldest open device
  request, \<open>Tick\<close> a display frame. The number carried along counts the open requests.
\<close>

datatype action = Press | Settle user_media audio_window | Tick audio_window

fun act :: "action \<Rightarrow> nat \<times> component \<Rightarrow> nat \<times> component" where
  "act Press (n, s) =
     (if isListening s then (n, stopListening s) else (Suc n, startListening_request s))"
| "act (Settle r w) (n, s) =
     (if n = 0 then (n, s) else (n - 1, startListening_resume r w s))"
| "act (Tick w) (n, s) = (n, animationFrame w s)"

definition drive :: "action list \<Rightarrow> component \<Rightarrow> component" where
  "drive as s = snd (fold act as (0, s))"

text \<open>The component after its first render, with the canvas \<open>c\<close> mounted.\<close>

definition mounted :: "canvas \<Rightarrow> component" where
  "mounted c =
     \<lparr>isListening = False, volume = 0, pitch = 0,
      audioContextRef = None, analyserRef = None, mediaStreamRef = None,
      animationFrameRef = None, canvasRef = Some c,
      audioContexts = 0, liveTracks = [], pendingFrames = [], lastFrameId = 0,
      errorsLogged = 0\<rparr>"

text \<open>
  One capture session at most: every live track belongs to the stream the component
  references, and every pending callback is the one it references (callback ids are
  positive).
\<close>

definition single_session :: "component \<Rightarrow> bool" where
  "single_session s \<longleftrightarrow>
     (\<forall>t\<in>set (liveTracks s). \<exists>stream. mediaStreamRef s = Some stream \<and> t \<in> set stream)
     \<and> (\<forall>h\<in>set (pendingFrames s). h \<noteq> 0 \<and> animationFrameRef s = Some h)"

text \<open>
  What holds of every state of a run in which each start has settled before the next
  click or frame: an idle component has no live track and no pending callback, live tracks
  belong to the referenced stream, at most one callback is pending and it is the
  referenced one, the analyser has the window size 2048, and the published pitch is
  between 0 and 1023 / 20.
\<close>

definition settled :: "component \<Rightarrow> bool" where
  "settled s \<longleftrightarrow>
     (\<not> isListening s \<longrightarrow> liveTracks s = [] \<and> pendingFrames s = [])
     \<and> (\<forall>t\<in>set (liveTracks s). \<exists>stream. mediaStreamRef s = Some stream \<and> t \<in> set stream)
     \<and> (pendingFrames s = []
          \<or> (\<exists>h. pendingFrames s = [h] \<and> h \<noteq> 0 \<and> animationFrameRef s = Some h))
     \<and> (\<forall>a. analyserRef s = Some a \<longrightarrow> fftSize a = 2048)
     \<and> 0 \<le> pitch s \<and> pitch s \<le> 1023 / 20"

text \<open>
  Concrete inputs for the examples: a silent window, a window of four samples swinging
  by 64 around the midpoint whose loudest bin is bin 2, and a 300 by 150 canvas.
\<close>

definition silence :: audio_window where
  "silence = \<lparr>timeSamples = (\<lambda>i. 128), binMagnitudes = (\<lambda>i. 0)\<rparr>"

definition window0 :: audio_window where
  "window0 = \<lparr>timeSamples = (\<lambda>i. if even i then 192 else 64),
              binMagnitudes = (\<lambda>i. if i = 2 then 9 else 0)\<rparr>"

definition canvas0 :: canvas where
  "canvas0 = \<lparr>clientWidth = 300, clientHeight = 150, width = 300, height = 150,
              context2d = True, drawn = []\<rparr>"

text \<open>
  Two clicks before the first device request settles, then both requests granted, with
  the streams of tracks 7 and 8.
\<close>

definition raced :: component where
  "raced = drive [Press, Press, Settle (Granted [7]) silence, Settle (Granted [8]) silence]
             (mounted canvas0)"

section \<open>Properties of the feature extractor\<close>

lemma sum_loop_acc: "sum_loop ds s = s + sum_loop ds 0"
proof (induction ds arbitrary: s)
  case Nil
  show ?case by simp
next
  case (Cons d ds)
  have "sum_loop (d # ds) s = sum_loop ds (s + \<bar>real (unat d) - 128\<bar>)" by simp
  also have "\<dots> = (s + \<bar>real (unat d) - 128\<bar>) + sum_loop ds 0" by (rule Cons.IH)
  also have "\<dots> = s + sum_loop ds \<bar>real (unat d) - 128\<bar>"
    using Cons.IH [of "\<bar>real (unat d) - 128\<bar>"] by simp
  finally show ?case by simp
qed

lemma sum_loop_sum_list: "sum_loop ds 0 = (\<Sum>d\<leftarrow>ds. \<bar>real (unat d) - 128\<bar>)"
proof (induction ds)
  case Nil
  show ?case by simp
next
  case (Cons d ds)
  then show ?case using sum_loop_acc [of ds "\<bar>real (unat d) - 128\<bar>"] by simp
qed

lemma sum_loop_nonneg: "0 \<le> sum_loop ds 0"
  unfolding sum_loop_sum_list by (rule sum_list_nonneg) auto

lemma sum_loop_silence: "\<forall>d\<in>set ds. d = 128 \<Longrightarrow> sum_loop ds 0 = 0"
  unfolding sum_loop_sum_list by (induction ds) auto

lemma alternating_set: "alternating ds \<Longrightarrow> \<forall>d\<in>set ds. d = 0 \<or> d = 255"
  by (induction ds rule: alternating.induct) auto

lemma deviation_extreme: "d = 0 \<or> d = 255 \<Longrightarrow> 127 \<le> \<bar>real (unat (d::byte)) - 128\<bar>"
proof -
  have "unat (255::byte) = 255" by simp
  then show "d = 0 \<or> d = 255 \<Longrightarrow> 127 \<le> \<bar>real (unat d) - 128\<bar>" by auto
qed

lemma sum_loop_extreme:
  "\<forall>d\<in>set ds. d = 0 \<or> d = 255 \<Longrightarrow> 127 * real (length ds) \<le> sum_loop ds 0"
  unfolding sum_loop_sum_list
proof (induction ds)
  case Nil
  show ?case by simp
next
  case (Cons d ds)
  have "d = 0 \<or> d = 255" using Cons.prems by simp
  then have "127 \<le> \<bar>real (unat d) - 128\<bar>" by (rule deviation_extreme)
  moreover have "127 * real (length ds) \<le> (\<Sum>d\<leftarrow>ds. \<bar>real (unat d) - 128\<bar>)"
    using Cons by simp
  ultimately show ?case by (simp add: algebra_simps)
qed

lemma newVolume_range: "ds \<noteq> [] \<Longrightarrow> 0 \<le> newVolume ds \<and> newVolume ds \<le> 100"
  using sum_loop_nonneg [of ds] by (simp add: newVolume_def)

lemma newVolume_silence: "ds \<noteq> [] \<Longrightarrow> \<forall>d\<in>set ds. d = 128 \<Longrightarrow> newVolume ds = 0"
  by (simp add: newVolume_def sum_loop_silence)

lemma newVolume_extreme:
  assumes "ds \<noteq> []" and "\<forall>d\<in>set ds. d = 0 \<or> d = 255"
  shows "newVolume ds = 100"
proof -
  define q where "q = sum_loop ds 0 / real (length ds)"
  have n: "0 < real (length ds)" using assms(1) by simp
  have "127 * real (length ds) \<le> sum_loop ds 0" by (rule sum_loop_extreme [OF assms(2)])
  then have "127 \<le> q"
    unfolding q_def using n by (simp add: pos_le_divide_eq)
  then have "100 \<le> q * 4" by arith
  then have "min (q * 4) 100 = 100" by (rule min_absorb2)
  then show ?thesis by (simp only: newVolume_def q_def)
qed

text \<open>
  Claim C1. For a buffer of \<open>N > 0\<close> unsigned 8-bit samples the loudness computed by the
  tick is \<open>min ((\<Sum>i. |sample i - 128|) / N * 4) 100\<close>. It lies in \<open>[0, 100]\<close>, a
  buffer of 128s gives 0, and a buffer alternating between 0 and 255 gives 100.
\<close>

theorem loudness_mean_deviation:
  assumes "samples \<noteq> []"
  shows "newVolume samples
           = min ((\<Sum>d\<leftarrow>samples. \<bar>real (unat d) - 128\<bar>) / real (length samples) * 4) 100
         \<and> 0 \<le> newVolume samples \<and> newVolume samples \<le> 100
         \<and> ((\<forall>d\<in>set samples. d = 128) \<longrightarrow> newVolume samples = 0)
         \<and> (alternating samples \<longrightarrow> newVolume samples = 100)
         \<and> ((\<forall>d\<in>set samples. d = 0 \<or> d = 255) \<longrightarrow> newVolume samples = 100)"
proof -
  have "newVolume samples
          = min ((\<Sum>d\<leftarrow>samples. \<bar>real (unat d) - 128\<bar>) / real (length samples) * 4) 100"
    by (simp add: newVolume_def sum_loop_sum_list)
  moreover note newVolume_range [OF assms]
  moreover have "(\<forall>d\<in>set samples. d = 128) \<longrightarrow> newVolume samples = 0"
    using newVolume_silence [OF assms] by blast
  moreover have "alternating samples \<longrightarrow> newVolume samples = 100"
    using newVolume_extreme [OF assms] alternating_set by blast
  moreover have "(\<forall>d\<in>set samples. d = 0 \<or> d = 255) \<longrightarrow> newVolume samples = 100"
    using newVolume_extreme [OF assms] by blast
  ultimately show ?thesis by blast
qed

theorem loudness_mean_deviation_witness:
  "[128, 128, 128, 128] \<noteq> ([] :: byte list)
   \<and> set [128, 128, 128, 128 :: byte] \<subseteq> {128}
   \<and> newVolume [128, 128, 128, 128] = 0
   \<and> alternating [0, 255, 0, 255]
   \<and> newVolume [0, 255, 0, 255] = 100
   \<and> newVolume [130, 126, 128, 131] = 7"
  using loudness_mean_deviation [of "[128, 128, 128, 128]"]
        loudness_mean_deviation [of "[0, 255, 0, 255]"]
        loudness_mean_deviation [of "[130, 126, 128, 131]"]
  by simp

lemma max_loop_keep:
  "\<forall>f\<in>set fs. unat f \<le> mv \<Longrightarrow> max_loop fs i (mv, mi) = (mv, mi)"
  by (induction fs arbitrary: i) auto

lemma Max_insert_below:
  fixes x :: nat
  assumes "finite A" and "y \<in> A" and "x < y"
  shows "Max (insert x A) = Max A \<and> x \<noteq> Max A"
proof -
  have "y \<le> Max A" using assms(1,2) by simp
  then have "x < Max A" using assms(3) by linarith
  moreover have "A \<noteq> {}" using assms(2) by auto
  ultimately show ?thesis using assms(1) by (simp add: max_absorb2)
qed

lemma max_loop_found:
  "\<exists>f\<in>set fs. mv < unat f \<Longrightarrow>
   max_loop fs i (mv, mi)
     = (Max (unat ` set fs), i + index_of (Max (unat ` set fs)) (map unat fs))"
proof (induction fs arbitrary: i mv mi)
  case Nil
  then show ?case by simp
next
  case (Cons f fs)
  let ?x = "unat f" and ?R = "unat ` set fs"
  show ?case
  proof (cases "mv < ?x")
    case big: True
    show ?thesis
    proof (cases "\<exists>g\<in>set fs. ?x < unat g")
      case True
      then obtain g where g: "g \<in> set fs" "?x < unat g" by blast
      have "Max (insert ?x ?R) = Max ?R \<and> ?x \<noteq> Max ?R"
        by (rule Max_insert_below [of ?R "unat g"]) (use g in auto)
      moreover have "max_loop fs (Suc i) (?x, i)
          = (Max ?R, Suc i + index_of (Max ?R) (map unat fs))"
        by (rule Cons.IH [OF True])
      ultimately show ?thesis using big by simp
    next
      case False
      then have all: "\<forall>g\<in>set fs. unat g \<le> ?x" by (auto simp: not_less)
      have "max_loop fs (Suc i) (?x, i) = (?x, i)" by (rule max_loop_keep [OF all])
      moreover have "Max (insert ?x ?R) = ?x"
        using all by (auto intro!: Max_eqI)
      ultimately show ?thesis using big by simp
    qed
  next
    case small: False
    then have ex: "\<exists>g\<in>set fs. mv < unat g" using Cons.prems by auto
    then obtain g where g: "g \<in> set fs" "mv < unat g" by blast
    have "?x < unat g" using small g(2) by linarith
    then have "Max (insert ?x ?R) = Max ?R \<and> ?x \<noteq> Max ?R"
      by (intro Max_insert_below [of ?R "unat g"]) (use g in auto)
    moreover have "max_loop fs (Suc i) (mv, mi)
        = (Max ?R, Suc i + index_of (Max ?R) (map unat fs))"
      by (rule Cons.IH [OF ex])
    ultimately show ?thesis using small by simp
  qed
qed

lemma maxIndex_zero:
  assumes "\<forall>f\<in>set fs. f = 0"
  shows "maxIndex fs = 0"
proof -
  have "\<forall>f\<in>set fs. unat f \<le> 0" using assms by auto
  then have "max_loop fs 0 (0, 0) = (0, 0)" by (rule max_loop_keep)
  then show ?thesis by (simp add: maxIndex_def)
qed

lemma maxIndex_first_max: "maxIndex fs = first_max_index fs"
proof (cases "\<exists>f\<in>set fs. 0 < unat f")
  case True
  then have ne: "fs \<noteq> []" by auto
  have "max_loop fs 0 (0, 0)
          = (Max (unat ` set fs), 0 + index_of (Max (unat ` set fs)) (map unat fs))"
    by (rule max_loop_found [OF True])
  then show ?thesis using ne by (simp add: maxIndex_def first_max_index_def)
next
  case False
  then have z: "\<forall>f\<in>set fs. f = 0" by (auto simp: unat_gt_0)
  show ?thesis
  proof (cases fs)
    case Nil
    then show ?thesis by (simp add: maxIndex_def first_max_index_def)
  next
    case (Cons f fs')
    have "Max (unat ` set fs) = 0" using z Cons by (auto intro!: Max_eqI)
    moreover have "unat f = 0" using z Cons by simp
    ultimately show ?thesis using Cons maxIndex_zero [OF z]
      by (simp add: first_max_index_def)
  qed
qed

lemma index_of_member:
  "m \<in> set xs \<Longrightarrow> index_of m xs < length xs \<and> xs ! index_of m xs = m
     \<and> (\<forall>j<index_of m xs. xs ! j \<noteq> m)"
proof (induction xs)
  case Nil
  then show ?case by simp
next
  case (Cons x xs)
  show ?case
  proof (cases "x = m")
    case True
    then show ?thesis by simp
  next
    case False
    then have "m \<in> set xs" using Cons.prems by simp
    then have IH: "index_of m xs < length xs" "xs ! index_of m xs = m"
      "\<forall>j<index_of m xs. xs ! j \<noteq> m" using Cons.IH by auto
    have "\<forall>j<Suc (index_of m xs). (x # xs) ! j \<noteq> m"
    proof (intro allI impI)
      fix j assume "j < Suc (index_of m xs)"
      then show "(x # xs) ! j \<noteq> m" using False IH(3) by (cases j) auto
    qed
    then show ?thesis using False IH by simp
  qed
qed

lemma maxIndex_dominant:
  assumes "fs \<noteq> []"
  shows "maxIndex fs < length fs
         \<and> (\<forall>j<length fs. unat (fs ! j) \<le> unat (fs ! maxIndex fs))
         \<and> (\<forall>j<maxIndex fs. unat (fs ! j) < unat (fs ! maxIndex fs))"
proof -
  let ?xs = "map unat fs"
  let ?M = "Max (set ?xs)"
  have ne: "set ?xs \<noteq> {}" using assms by simp
  have Min: "?M \<in> set ?xs" using ne by (intro Max_in) auto
  have k: "maxIndex fs = index_of ?M ?xs"
    using assms by (simp add: maxIndex_first_max first_max_index_def)
  note io = index_of_member [OF Min]
  have lt: "maxIndex fs < length fs" using io k by simp
  have "?xs ! maxIndex fs = ?M" using io k by simp
  then have at: "unat (fs ! maxIndex fs) = ?M" using lt by simp
  have le: "\<forall>j<length fs. unat (fs ! j) \<le> ?M" by simp
  have "\<forall>j<maxIndex fs. unat (fs ! j) < ?M"
  proof (intro allI impI)
    fix j assume j: "j < maxIndex fs"
    then have jl: "j < length fs" using lt by simp
    have "\<forall>j<index_of ?M ?xs. ?xs ! j \<noteq> ?M" using io by blast
    then have "?xs ! j \<noteq> ?M" using j k by auto
    moreover have "?xs ! j \<le> ?M" using jl by simp
    ultimately have "?xs ! j < ?M" by linarith
    then show "unat (fs ! j) < ?M" using jl by simp
  qed
  then show ?thesis using lt at le by simp
qed

lemma normalizedPitch_range: "0 \<le> normalizedPitch fs \<and> normalizedPitch fs \<le> 100"
  by (simp add: normalizedPitch_def)

text \<open>
  Claim C2. The dominant-bin index found by the scan is the first position holding the
  maximum magnitude (for the spectrum 50, 50, 30 it is 0), the pitch proxy is
  \<open>min (maxIndex / 20) 100\<close>, a spectrum of zeros gives the pitch proxy 0, and the pitch
  proxy lies in \<open>[0, 100]\<close>.
\<close>

theorem dominant_bin_first_max:
  "maxIndex fs = first_max_index fs
   \<and> (fs \<noteq> [] \<longrightarrow>
        maxIndex fs < length fs
        \<and> (\<forall>j<length fs. unat (fs ! j) \<le> unat (fs ! maxIndex fs))
        \<and> (\<forall>j<maxIndex fs. unat (fs ! j) < unat (fs ! maxIndex fs)))
   \<and> maxIndex [50, 50, 30] = 0
   \<and> normalizedPitch fs = min (real (first_max_index fs) / 20) 100
   \<and> ((\<forall>f\<in>set fs. f = 0) \<longrightarrow> normalizedPitch fs = 0)
   \<and> 0 \<le> normalizedPitch fs \<and> normalizedPitch fs \<le> 100"
proof -
  have "maxIndex [50, 50, 30] = 0" by (simp add: maxIndex_def)
  moreover have "normalizedPitch fs = min (real (first_max_index fs) / 20) 100"
    by (simp add: normalizedPitch_def maxIndex_first_max)
  moreover have "(\<forall>f\<in>set fs. f = 0) \<longrightarrow> normalizedPitch fs = 0"
    by (simp add: normalizedPitch_def maxIndex_zero)
  moreover have "fs \<noteq> [] \<longrightarrow>
        maxIndex fs < length fs
        \<and> (\<forall>j<length fs. unat (fs ! j) \<le> unat (fs ! maxIndex fs))
        \<and> (\<forall>j<maxIndex fs. unat (fs ! j) < unat (fs ! maxIndex fs))"
    using maxIndex_dominant by blast
  ultimately show ?thesis
    using maxIndex_first_max [of fs] normalizedPitch_range [of fs] by blast
qed

theorem dominant_bin_first_max_witness:
  "[10, 70, 30, 70] \<noteq> ([] :: byte list)
   \<and> maxIndex [10, 70, 30, 70] = 1
   \<and> first_max_index [10, 70, 30, 70] = 1
   \<and> normalizedPitch [10, 70, 30, 70] = 1 / 20
   \<and> set [0, 0, 0 :: byte] \<subseteq> {0}
   \<and> normalizedPitch [0, 0, 0] = 0"
  using dominant_bin_first_max [of "[10, 70, 30, 70]"]
        dominant_bin_first_max [of "[0, 0, 0]"]
  by (simp add: maxIndex_def first_max_index_def)

section \<open>Properties of the render tick\<close>

lemma draw_loop_vertices:
  "draw_loop ds i x sw amp h =
     map (\<lambda>j. (if i + j = 0 then MoveTo else LineTo)
                 (x + real j * sw)
                 (h / 2 + ((real (unat (ds ! j)) / 128 - 1) * amp) * (h / 2)))
         [0..<length ds]"
proof (induction ds arbitrary: i x)
  case Nil
  show ?case by simp
next
  case (Cons d ds)
  let ?f = "\<lambda>j. (if i + j = 0 then MoveTo else LineTo)
                 (x + real j * sw)
                 (h / 2 + ((real (unat ((d # ds) ! j)) / 128 - 1) * amp) * (h / 2))"
  have upt: "[0..<length (d # ds)] = 0 # map Suc [0..<length ds]"
    by (simp add: upt_conv_Cons map_Suc_upt del: upt_Suc)
  have step: "x + sw + real j * sw = x + real (Suc j) * sw" for j
    by (simp add: algebra_simps)
  have rest: "draw_loop ds (Suc i) (x + sw) sw amp h = map (?f \<circ> Suc) [0..<length ds]"
    unfolding Cons.IH [of "Suc i" "x + sw"] step by (rule map_cong) simp_all
  have "draw_loop (d # ds) i x sw amp h = ?f 0 # draw_loop ds (Suc i) (x + sw) sw amp h"
    by (simp add: Let_def)
  also have "\<dots> = ?f 0 # map (?f \<circ> Suc) [0..<length ds]"
    by (simp only: rest)
  also have "\<dots> = map ?f [0..<length (d # ds)]"
    unfolding upt by (simp only: list.map map_map)
  finally show ?case .
qed

lemma length_dataArray: "length (dataArray a w) = frequencyBinCount a"
  by (simp add: dataArray_def getByteTimeDomainData_def)

lemma length_frequencyData: "length (frequencyData a w) = frequencyBinCount a"
  by (simp add: frequencyData_def getByteFrequencyData_def)

lemma frequencyBinCount_2048: "fftSize a = 2048 \<Longrightarrow> frequencyBinCount a = 1024"
  by (simp add: frequencyBinCount_def)

lemma analyserRef_requestAnimationFrame [simp]:
  "analyserRef (requestAnimationFrame s) = analyserRef s"
  by (simp add: requestAnimationFrame_def Let_def)

lemma analyserRef_render [simp]: "analyserRef (render a c w s) = analyserRef s"
  by (simp add: render_def Let_def)

lemma analyserRef_updateWaveform [simp]: "analyserRef (updateWaveform w s) = analyserRef s"
  by (simp add: updateWaveform_def split: option.splits)

lemma analyserRef_stopListening [simp]: "analyserRef (stopListening s) = analyserRef s"
  by (simp add: stopListening_def cancelAnimationFrame_def Let_def split: option.splits)

lemma requestAnimationFrame_fields [simp]:
  "isListening (requestAnimationFrame s) = isListening s"
  "volume (requestAnimationFrame s) = volume s"
  "pitch (requestAnimationFrame s) = pitch s"
  "audioContextRef (requestAnimationFrame s) = audioContextRef s"
  "mediaStreamRef (requestAnimationFrame s) = mediaStreamRef s"
  "canvasRef (requestAnimationFrame s) = canvasRef s"
  "audioContexts (requestAnimationFrame s) = audioContexts s"
  "liveTracks (requestAnimationFrame s) = liveTracks s"
  "errorsLogged (requestAnimationFrame s) = errorsLogged s"
  "pendingFrames (requestAnimationFrame s) = pendingFrames s @ [Suc (lastFrameId s)]"
  "animationFrameRef (requestAnimationFrame s) = Some (Suc (lastFrameId s))"
  "lastFrameId (requestAnimationFrame s) = Suc (lastFrameId s)"
  by (simp_all add: requestAnimationFrame_def Let_def)

lemma render_fields [simp]:
  "isListening (render a c w s) = isListening s"
  "volume (render a c w s) = newVolume (dataArray a w)"
  "pitch (render a c w s) = normalizedPitch (frequencyData a w)"
  "audioContextRef (render a c w s) = audioContextRef s"
  "mediaStreamRef (render a c w s) = mediaStreamRef s"
  "audioContexts (render a c w s) = audioContexts s"
  "liveTracks (render a c w s) = liveTracks s"
  "errorsLogged (render a c w s) = errorsLogged s"
  "pendingFrames (render a c w s) = pendingFrames s"
  "animationFrameRef (render a c w s) = animationFrameRef s"
  "lastFrameId (render a c w s) = lastFrameId s"
  by (simp_all add: render_def Let_def)

text \<open>The tick stalls when the canvas is there and yields no 2D context (line 68).\<close>

lemma updateWaveform_stall:
  "analyserRef s = Some a \<Longrightarrow> canvasRef s = Some c \<Longrightarrow> \<not> context2d c \<Longrightarrow>
   updateWaveform w s = s"
  by (simp add: updateWaveform_def)

lemma updateWaveform_render:
  "analyserRef s = Some a \<Longrightarrow> canvasRef s = Some c \<Longrightarrow> context2d c \<Longrightarrow>
   updateWaveform w s = requestAnimationFrame (render a c w s)"
  by (simp add: updateWaveform_def)

lemma updateWaveform_skip:
  "analyserRef s = None \<or> canvasRef s = None \<Longrightarrow>
   updateWaveform w s = requestAnimationFrame s"
  by (auto simp: updateWaveform_def split: option.splits)

lemma updateWaveform_fields [simp]:
  "isListening (updateWaveform w s) = isListening s"
  "audioContextRef (updateWaveform w s) = audioContextRef s"
  "mediaStreamRef (updateWaveform w s) = mediaStreamRef s"
  "audioContexts (updateWaveform w s) = audioContexts s"
  "liveTracks (updateWaveform w s) = liveTracks s"
  "errorsLogged (updateWaveform w s) = errorsLogged s"
  by (simp_all add: updateWaveform_def split: option.splits)

lemma fold_removeAll_set: "set (fold removeAll xs ys) = set ys - set xs"
  by (induction xs arbitrary: ys) auto

lemma fold_removeAll_covered:
  assumes "set ys \<subseteq> set xs"
  shows "fold removeAll xs ys = []"
proof -
  have "set (fold removeAll xs ys) = {}" using assms by (simp add: fold_removeAll_set)
  then show ?thesis by simp
qed

lemma removeAll_only: "\<forall>k\<in>set hs. k = h \<Longrightarrow> removeAll h hs = []"
  by (induction hs) auto

lemma stopListening_fields [simp]:
  "isListening (stopListening s) = False"
  "volume (stopListening s) = 0"
  "pitch (stopListening s) = 0"
  "mediaStreamRef (stopListening s) = None"
  "audioContextRef (stopListening s) = audioContextRef s"
  "audioContexts (stopListening s) = audioContexts s"
  "canvasRef (stopListening s) = canvasRef s"
  "errorsLogged (stopListening s) = errorsLogged s"
  by (simp_all add: stopListening_def cancelAnimationFrame_def Let_def split: option.splits)

lemma stopListening_liveTracks:
  "liveTracks (stopListening s)
     = (case mediaStreamRef s of None \<Rightarrow> liveTracks s
        | Some stream \<Rightarrow> fold removeAll stream (liveTracks s))"
  by (simp add: stopListening_def cancelAnimationFrame_def Let_def split: option.splits)

lemma stopListening_pendingFrames:
  "pendingFrames (stopListening s)
     = (case animationFrameRef s of None \<Rightarrow> pendingFrames s
        | Some h \<Rightarrow> if h \<noteq> 0 then removeAll h (pendingFrames s) else pendingFrames s)"
  by (simp add: stopListening_def cancelAnimationFrame_def Let_def split: option.splits)


lemma stopListening_releases:
  assumes "single_session s"
  shows "liveTracks (stopListening s) = [] \<and> pendingFrames (stopListening s) = []"
proof -
  have live: "\<forall>t\<in>set (liveTracks s). \<exists>stream. mediaStreamRef s = Some stream \<and> t \<in> set stream"
    and pend: "\<forall>h\<in>set (pendingFrames s). h \<noteq> 0 \<and> animationFrameRef s = Some h"
    using assms by (simp_all add: single_session_def)
  have "liveTracks (stopListening s) = []"
  proof (cases "mediaStreamRef s")
    case None
    then have "liveTracks s = []" using live by (cases "liveTracks s") auto
    then show ?thesis using None by (simp add: stopListening_liveTracks)
  next
    case (Some stream)
    then have "set (liveTracks s) \<subseteq> set stream" using live by auto
    then show ?thesis using Some by (simp add: stopListening_liveTracks fold_removeAll_covered)
  qed
  moreover have "pendingFrames (stopListening s) = []"
  proof (cases "pendingFrames s")
    case Nil
    then show ?thesis by (simp add: stopListening_pendingFrames split: option.splits)
  next
    case (Cons h hs)
    then have h: "h \<noteq> 0" "animationFrameRef s = Some h" using pend by auto
    have "\<forall>k\<in>set (pendingFrames s). k = h" using pend h(2) by auto
    then have "removeAll h (pendingFrames s) = []" by (rule removeAll_only)
    then show ?thesis using h by (simp add: stopListening_pendingFrames)
  qed
  ultimately show ?thesis by simp
qed

section \<open>Start, stop and the reachable states\<close>

lemma startListening_Denied:
  "startListening Denied w s =
     s\<lparr>audioContexts := Suc (audioContexts s),
       audioContextRef := Some (Suc (audioContexts s)),
       errorsLogged := Suc (errorsLogged s)\<rparr>"
  by (simp add: startListening_def startListening_resume_def startListening_request_def)

lemma startListening_Granted:
  "startListening (Granted stream) w s =
     updateWaveform w
       (s\<lparr>audioContexts := Suc (audioContexts s),
          audioContextRef := Some (Suc (audioContexts s)),
          liveTracks := liveTracks s @ stream,
          mediaStreamRef := Some stream,
          analyserRef := Some \<lparr>fftSize = 2048\<rparr>,
          isListening := True\<rparr>)"
  by (simp add: startListening_def startListening_resume_def startListening_request_def Let_def)

lemma maxIndex_bound: "fs \<noteq> [] \<Longrightarrow> maxIndex fs < length fs"
  using maxIndex_dominant by blast

lemma pitch_bound_2048:
  assumes "fftSize a = 2048"
  shows "maxIndex (frequencyData a w) \<le> 1023
         \<and> normalizedPitch (frequencyData a w) = real (maxIndex (frequencyData a w)) / 20
         \<and> 0 \<le> normalizedPitch (frequencyData a w)
         \<and> normalizedPitch (frequencyData a w) \<le> 1023 / 20"
proof -
  have len: "length (frequencyData a w) = 1024"
    using assms by (simp add: length_frequencyData frequencyBinCount_2048)
  then have "frequencyData a w \<noteq> []" by auto
  then have "maxIndex (frequencyData a w) < length (frequencyData a w)" by (rule maxIndex_bound)
  then have k: "maxIndex (frequencyData a w) \<le> 1023" using len by simp
  then have r: "real (maxIndex (frequencyData a w)) \<le> 1023" by simp
  then have "real (maxIndex (frequencyData a w)) / 20 \<le> 100" by simp
  then have "normalizedPitch (frequencyData a w) = real (maxIndex (frequencyData a w)) / 20"
    unfolding normalizedPitch_def by (rule min_absorb1)
  then show ?thesis using k r by simp
qed

lemma settled_single_session: "settled s \<Longrightarrow> single_session s"
  by (auto simp: settled_def single_session_def)

lemma settled_updateWaveform:
  assumes "settled s" and "pendingFrames s = []" and "isListening s"
  shows "settled (updateWaveform w s)"
proof (cases "analyserRef s")
  case None
  then have "updateWaveform w s = requestAnimationFrame s" by (simp add: updateWaveform_skip)
  then show ?thesis using assms by (simp add: settled_def)
next
  case a: (Some a)
  show ?thesis
  proof (cases "canvasRef s")
    case None
    then have "updateWaveform w s = requestAnimationFrame s" by (simp add: updateWaveform_skip)
    then show ?thesis using assms by (simp add: settled_def)
  next
    case c: (Some c)
    show ?thesis
    proof (cases "context2d c")
      case False
      then show ?thesis using assms a c by (simp add: updateWaveform_stall)
    next
      case True
      have "fftSize a = 2048" using assms(1) a by (simp add: settled_def)
      then have "0 \<le> normalizedPitch (frequencyData a w)
                 \<and> normalizedPitch (frequencyData a w) \<le> 1023 / 20"
        using pitch_bound_2048 by blast
      then show ?thesis using assms a c True
        by (simp add: updateWaveform_render settled_def)
    qed
  qed
qed

lemma settled_stopListening:
  assumes "settled s"
  shows "settled (stopListening s)"
proof -
  have "liveTracks (stopListening s) = [] \<and> pendingFrames (stopListening s) = []"
    by (rule stopListening_releases [OF settled_single_session [OF assms]])
  then show ?thesis using assms by (simp add: settled_def)
qed

lemma settled_startListening:
  assumes "settled s" and "\<not> isListening s"
  shows "settled (startListening r w s)"
proof (cases r)
  case Denied
  then show ?thesis using assms by (simp add: startListening_Denied settled_def)
next
  case (Granted stream)
  let ?s1 = "s\<lparr>audioContexts := Suc (audioContexts s),
          audioContextRef := Some (Suc (audioContexts s)),
          liveTracks := liveTracks s @ stream,
          mediaStreamRef := Some stream,
          analyserRef := Some \<lparr>fftSize = 2048\<rparr>,
          isListening := True\<rparr>"
  have idle: "liveTracks s = []" "pendingFrames s = []" using assms by (simp_all add: settled_def)
  have "settled ?s1" using assms(1) idle by (simp add: settled_def)
  moreover have "pendingFrames ?s1 = []" "isListening ?s1" using idle by simp_all
  ultimately have "settled (updateWaveform w ?s1)" by (rule settled_updateWaveform)
  then show ?thesis using Granted by (simp only: startListening_Granted)
qed

lemma settled_animationFrame:
  assumes "settled s"
  shows "settled (animationFrame w s)"
proof (cases "pendingFrames s")
  case Nil
  then show ?thesis using assms by (simp add: animationFrame_def)
next
  case (Cons h rest)
  then have r: "rest = []" and l: "isListening s" using assms by (auto simp: settled_def)
  let ?s1 = "s\<lparr>pendingFrames := rest\<rparr>"
  have "settled ?s1" using assms r l by (simp add: settled_def)
  moreover have "pendingFrames ?s1 = []" "isListening ?s1" using r l by simp_all
  ultimately have "settled (updateWaveform w ?s1)" by (rule settled_updateWaveform)
  then show ?thesis using Cons by (simp add: animationFrame_def)
qed

lemma settled_step: "settled s \<Longrightarrow> settled (step e s)"
  by (cases e) (simp_all add: onClick_def settled_stopListening settled_startListening
      settled_animationFrame)

lemma settled_mounted: "settled (mounted c)"
  by (simp add: settled_def mounted_def)

lemma settled_fold: "settled s \<Longrightarrow> settled (fold step es s)"
  by (induction es arbitrary: s) (simp_all add: settled_step)

lemma settled_run: "settled (run es (mounted c))"
  unfolding run_def by (rule settled_fold [OF settled_mounted])

section \<open>The claims on the drawing\<close>

lemma render_canvas:
  "canvasRef (render a c w s) =
     Some (c\<lparr>width := clientWidth c, height := clientHeight c,
             drawn := [FillStyle ''rgb(20, 20, 30)'',
                       FillRect 0 0 (real (clientWidth c)) (real (clientHeight c)),
                       LineWidth 3,
                       StrokeStyleHsl (normalizedPitch (frequencyData a w) * 2) 100 50,
                       BeginPath]
                      @ draw_loop (dataArray a w) 0 0
                          (real (clientWidth c) / real (frequencyBinCount a))
                          (amplitudeFactor (newVolume (dataArray a w))
                             (normalizedPitch (frequencyData a w)))
                          (real (clientHeight c))
                      @ [LineTo (real (clientWidth c)) (real (clientHeight c) / 2), Stroke]\<rparr>)"
  by (simp add: render_def Let_def)

text \<open>
  Claim C8. On a tick that renders, the factor that scales the waveform is
  \<open>(loudness / 50) * (pitchProxy / 50 + 0.5)\<close> of the loudness and the pitch proxy the
  tick publishes; for loudness 50 and pitch proxy 50 it is 1.5, and for loudness 0 it
  is 0 whatever the pitch proxy.
\<close>

theorem amplitude_factor_of_tick:
  assumes "analyserRef s = Some a" and "canvasRef s = Some c" and "context2d c"
  shows "volume (updateWaveform w s) = newVolume (dataArray a w)
     \<and> pitch (updateWaveform w s) = normalizedPitch (frequencyData a w)
     \<and> map_option drawn (canvasRef (updateWaveform w s)) =
         Some ([FillStyle ''rgb(20, 20, 30)'',
                FillRect 0 0 (real (clientWidth c)) (real (clientHeight c)),
                LineWidth 3,
                StrokeStyleHsl (pitch (updateWaveform w s) * 2) 100 50,
                BeginPath]
               @ draw_loop (dataArray a w) 0 0
                   (real (clientWidth c) / real (frequencyBinCount a))
                   ((volume (updateWaveform w s) / 50) * (pitch (updateWaveform w s) / 50 + 0.5))
                   (real (clientHeight c))
               @ [LineTo (real (clientWidth c)) (real (clientHeight c) / 2), Stroke])
     \<and> amplitudeFactor 50 50 = 1.5
     \<and> amplitudeFactor 0 np = 0"
proof -
  have u: "updateWaveform w s = requestAnimationFrame (render a c w s)"
    using assms by (rule updateWaveform_render)
  have "amplitudeFactor 50 50 = 1.5" "amplitudeFactor 0 np = 0"
    by (simp_all add: amplitudeFactor_def)
  then show ?thesis unfolding u by (simp add: render_canvas amplitudeFactor_def)
qed

text \<open>
  Claim C9. On a tick that renders a buffer of \<open>N\<close> samples onto a canvas of width
  \<open>W\<close> and height \<open>H\<close>, vertex \<open>i\<close> of the path is at \<open>x = i * (W / N)\<close> and
  \<open>y = H / 2 + ((sample i / 128 - 1) * amplitudeFactor) * (H / 2)\<close>, the stroke hue is
  twice the pitch proxy, and the path ends with a line to \<open>(W, H / 2)\<close> before it is
  stroked.
\<close>

theorem waveform_polyline:
  assumes "analyserRef s = Some a" and "canvasRef s = Some c" and "context2d c"
  shows "map_option width (canvasRef (updateWaveform w s)) = Some (clientWidth c)
     \<and> map_option height (canvasRef (updateWaveform w s)) = Some (clientHeight c)
     \<and> map_option drawn (canvasRef (updateWaveform w s)) =
         Some ([FillStyle ''rgb(20, 20, 30)'',
                FillRect 0 0 (real (clientWidth c)) (real (clientHeight c)),
                LineWidth 3,
                StrokeStyleHsl (pitch (updateWaveform w s) * 2) 100 50,
                BeginPath]
               @ map (\<lambda>i. (if i = 0 then MoveTo else LineTo)
                             (real i * (real (clientWidth c) / real (length (dataArray a w))))
                             (real (clientHeight c) / 2
                              + ((real (unat (dataArray a w ! i)) / 128 - 1)
                                 * ((volume (updateWaveform w s) / 50)
                                    * (pitch (updateWaveform w s) / 50 + 0.5)))
                                * (real (clientHeight c) / 2)))
                     [0..<length (dataArray a w)]
               @ [LineTo (real (clientWidth c)) (real (clientHeight c) / 2), Stroke])"
proof -
  have u: "updateWaveform w s = requestAnimationFrame (render a c w s)"
    using assms by (rule updateWaveform_render)
  show ?thesis unfolding u
    by (simp add: render_canvas amplitudeFactor_def draw_loop_vertices length_dataArray)
qed

lemma upt_0_4: "[0..<4] = [0, 1, 2, Suc 2]"
  by (simp add: upt_conv_Cons)

lemma dataArray_window0: "dataArray \<lparr>fftSize = 8\<rparr> window0 = [192, 64, 192, 64]"
  by (simp add: dataArray_def getByteTimeDomainData_def frequencyBinCount_def window0_def
      upt_0_4 Let_def)

lemma frequencyData_window0: "frequencyData \<lparr>fftSize = 8\<rparr> window0 = [0, 0, 9, 0]"
  by (simp add: frequencyData_def getByteFrequencyData_def frequencyBinCount_def window0_def
      upt_0_4)

theorem amplitude_factor_of_tick_witness:
  "analyserRef ((mounted canvas0)\<lparr>analyserRef := Some \<lparr>fftSize = 8\<rparr>\<rparr>) = Some \<lparr>fftSize = 8\<rparr>
   \<and> canvasRef ((mounted canvas0)\<lparr>analyserRef := Some \<lparr>fftSize = 8\<rparr>\<rparr>) = Some canvas0
   \<and> context2d canvas0
   \<and> volume (updateWaveform window0 ((mounted canvas0)\<lparr>analyserRef := Some \<lparr>fftSize = 8\<rparr>\<rparr>)) = 100
   \<and> pitch (updateWaveform window0 ((mounted canvas0)\<lparr>analyserRef := Some \<lparr>fftSize = 8\<rparr>\<rparr>)) = 1 / 10
   \<and> map_option drawn
        (canvasRef (updateWaveform window0 ((mounted canvas0)\<lparr>analyserRef := Some \<lparr>fftSize = 8\<rparr>\<rparr>)))
      = Some ([FillStyle ''rgb(20, 20, 30)'', FillRect 0 0 300 150, LineWidth 3,
               StrokeStyleHsl (1 / 5) 100 50, BeginPath]
              @ draw_loop [192, 64, 192, 64] 0 0 75 (251 / 250) 150
              @ [LineTo 300 75, Stroke])
   \<and> amplitudeFactor 0 7 = 0"
  using amplitude_factor_of_tick
    [of "(mounted canvas0)\<lparr>analyserRef := Some \<lparr>fftSize = 8\<rparr>\<rparr>" "\<lparr>fftSize = 8\<rparr>" canvas0 window0 7]
  by (simp add: mounted_def canvas0_def updateWaveform_def render_canvas
      dataArray_window0 frequencyData_window0 frequencyBinCount_def amplitudeFactor_def
      newVolume_def normalizedPitch_def maxIndex_def)

theorem waveform_polyline_witness:
  "analyserRef ((mounted canvas0)\<lparr>analyserRef := Some \<lparr>fftSize = 8\<rparr>\<rparr>) = Some \<lparr>fftSize = 8\<rparr>
   \<and> canvasRef ((mounted canvas0)\<lparr>analyserRef := Some \<lparr>fftSize = 8\<rparr>\<rparr>) = Some canvas0
   \<and> context2d canvas0
   \<and> map_option drawn
        (canvasRef (updateWaveform window0 ((mounted canvas0)\<lparr>analyserRef := Some \<lparr>fftSize = 8\<rparr>\<rparr>)))
      = Some [FillStyle ''rgb(20, 20, 30)'', FillRect 0 0 300 150, LineWidth 3,
              StrokeStyleHsl (1 / 5) 100 50, BeginPath,
              MoveTo 0 (2253 / 20), LineTo 75 (747 / 20),
              LineTo 150 (2253 / 20), LineTo 225 (747 / 20),
              LineTo 300 75, Stroke]"
  using waveform_polyline
    [of "(mounted canvas0)\<lparr>analyserRef := Some \<lparr>fftSize = 8\<rparr>\<rparr>" "\<lparr>fftSize = 8\<rparr>" canvas0 window0]
  by (simp add: mounted_def canvas0_def updateWaveform_def render_canvas
      dataArray_window0 frequencyData_window0 frequencyBinCount_def amplitudeFactor_def
      newVolume_def normalizedPitch_def maxIndex_def)

lemma started:
  "startListening (Granted [7]) silence (mounted canvas0) =
     updateWaveform silence
       ((mounted canvas0)\<lparr>audioContexts := 1, audioContextRef := Some 1, liveTracks := [7],
          mediaStreamRef := Some [7], analyserRef := Some \<lparr>fftSize = 2048\<rparr>,
          isListening := True\<rparr>)"
  by (simp add: startListening_Granted mounted_def)

lemma started_fields:
  "isListening (startListening (Granted [7]) silence (mounted canvas0))"
  "liveTracks (startListening (Granted [7]) silence (mounted canvas0)) = [7]"
  "mediaStreamRef (startListening (Granted [7]) silence (mounted canvas0)) = Some [7]"
  "pendingFrames (startListening (Granted [7]) silence (mounted canvas0)) = [Suc 0]"
  "animationFrameRef (startListening (Granted [7]) silence (mounted canvas0)) = Some (Suc 0)"
  "analyserRef (startListening (Granted [7]) silence (mounted canvas0)) = Some \<lparr>fftSize = 2048\<rparr>"
  by (simp_all add: startListening_Granted mounted_def canvas0_def updateWaveform_def)

lemma run_one_click:
  "run [Click r w] (mounted c) = startListening r w (mounted c)"
  by (simp add: run_def onClick_def mounted_def)

lemma raced_fields:
  "isListening raced"
  "liveTracks raced = [7, 8]"
  "mediaStreamRef raced = Some [8]"
  "pendingFrames raced = [Suc 0, 2]"
  "animationFrameRef raced = Some 2"
  "lastFrameId raced = 2"
  "analyserRef raced = Some \<lparr>fftSize = 2048\<rparr>"
  "map_option context2d (canvasRef raced) = Some True"
  by (simp_all add: raced_def drive_def startListening_request_def startListening_resume_def
      mounted_def canvas0_def updateWaveform_def render_canvas Let_def)

lemma analyserRef_startListening_resume:
  "analyserRef (startListening_resume r w s) = Some a \<Longrightarrow>
   analyserRef s = Some a \<or> fftSize a = 2048"
  by (auto simp: startListening_resume_def Let_def split: user_media.splits option.splits)

lemma analyserRef_animationFrame: "analyserRef (animationFrame w s) = analyserRef s"
  by (simp add: animationFrame_def split: list.splits)

lemma analyserRef_act:
  assumes "\<forall>a. analyserRef s = Some a \<longrightarrow> fftSize a = 2048"
  shows "\<forall>a. analyserRef (snd (act x (n, s))) = Some a \<longrightarrow> fftSize a = 2048"
proof (cases x)
  case Press
  then show ?thesis using assms by (simp add: startListening_request_def)
next
  case (Settle r w)
  then show ?thesis using assms analyserRef_startListening_resume [of r w s] by auto
next
  case (Tick w)
  then show ?thesis using assms by (simp add: analyserRef_animationFrame)
qed

lemma analyserRef_fold_act:
  "\<forall>a. analyserRef s = Some a \<longrightarrow> fftSize a = 2048 \<Longrightarrow>
   \<forall>a. analyserRef (snd (fold act as (n, s))) = Some a \<longrightarrow> fftSize a = 2048"
proof (induction as arbitrary: n s)
  case Nil
  then show ?case by simp
next
  case (Cons x as)
  obtain n' s' where step: "act x (n, s) = (n', s')" by (cases "act x (n, s)")
  have "\<forall>a. analyserRef s' = Some a \<longrightarrow> fftSize a = 2048"
    using analyserRef_act [OF Cons.prems, of x n] step by simp
  then have "\<forall>a. analyserRef (snd (fold act as (n', s'))) = Some a \<longrightarrow> fftSize a = 2048"
    by (rule Cons.IH)
  then show ?case using step by simp
qed

lemma analyserRef_drive:
  "analyserRef (drive as (mounted c)) = Some a \<Longrightarrow> fftSize a = 2048"
  using analyserRef_fold_act [of "mounted c" as 0] by (simp add: drive_def mounted_def)

section \<open>The claims on the frame lengths, the loop and the lifecycle\<close>

text \<open>
  Claim C3, as stated: the time-domain frame of a tick has 2048 elements and the
  spectrum frame 1024. The analyser that \<^verbatim>\<open>startListening\<close> stores has the window size
  2048, and the array the tick reads the time-domain data into has 1024 elements.
\<close>

theorem time_frame_length_counterexample:
  "analyserRef (startListening (Granted [7]) silence (mounted canvas0)) = Some \<lparr>fftSize = 2048\<rparr>
   \<and> length (dataArray \<lparr>fftSize = 2048\<rparr> silence) = 1024
   \<and> length (dataArray \<lparr>fftSize = 2048\<rparr> silence) \<noteq> 2048"
  by (simp add: started length_dataArray frequencyBinCount_def)

text \<open>
  Claim C3, amended. On every tick the analyser has the window size 2048 and both the
  time-domain frame and the spectrum frame have 1024 elements, the analyser's
  \<^verbatim>\<open>frequencyBinCount\<close>; this holds of every analyser the component stores, in the
  runs with settled starts and in those where clicks and frames fall before a device
  request settles.
\<close>

theorem frames_have_1024_elements:
  assumes "analyserRef (run es (mounted c)) = Some a
           \<or> analyserRef (drive as (mounted c)) = Some a"
  shows "fftSize a = 2048 \<and> length (dataArray a w) = 1024 \<and> length (frequencyData a w) = 1024"
proof -
  have "settled (run es (mounted c))" by (rule settled_run)
  then have "fftSize a = 2048"
    using assms analyserRef_drive [of as c a] by (auto simp: settled_def)
  then show ?thesis
    by (simp add: length_dataArray length_frequencyData frequencyBinCount_2048)
qed

theorem frames_have_1024_elements_witness:
  "analyserRef (run [Click (Granted [7]) silence] (mounted canvas0)) = Some \<lparr>fftSize = 2048\<rparr>
   \<and> analyserRef raced = Some \<lparr>fftSize = 2048\<rparr>
   \<and> length (dataArray \<lparr>fftSize = 2048\<rparr> silence) = 1024
   \<and> length (frequencyData \<lparr>fftSize = 2048\<rparr> silence) = 1024"
  using frames_have_1024_elements
    [of "[Click (Granted [7]) silence]" canvas0 "\<lparr>fftSize = 2048\<rparr>" "[]" silence]
  by (simp add: run_one_click started raced_fields)

text \<open>
  Claim C10. The spectrum a tick scans has 1024 bins, so the dominant-bin index is at
  most 1023, the pitch proxy is \<open>maxIndex / 20\<close> without the clamp and at most
  \<open>1023 / 20 = 51.15\<close>; the pitch the component publishes never exceeds that value.
\<close>

theorem pitch_clamp_never_active:
  "(analyserRef (run es (mounted c)) = Some a \<longrightarrow>
      length (frequencyData a w) = 1024
      \<and> maxIndex (frequencyData a w) \<le> 1023
      \<and> normalizedPitch (frequencyData a w) = real (maxIndex (frequencyData a w)) / 20
      \<and> normalizedPitch (frequencyData a w) \<le> 1023 / 20)
   \<and> pitch (run es (mounted c)) \<le> 1023 / 20
   \<and> (1023 :: real) / 20 = 51.15 \<and> (1023 :: real) / 20 < 100"
proof -
  have inv: "settled (run es (mounted c))" by (rule settled_run)
  have "pitch (run es (mounted c)) \<le> 1023 / 20" using inv by (simp add: settled_def)
  moreover have "length (frequencyData a w) = 1024
      \<and> maxIndex (frequencyData a w) \<le> 1023
      \<and> normalizedPitch (frequencyData a w) = real (maxIndex (frequencyData a w)) / 20
      \<and> normalizedPitch (frequencyData a w) \<le> 1023 / 20"
    if "analyserRef (run es (mounted c)) = Some a"
  proof -
    have f: "fftSize a = 2048" using inv that by (simp add: settled_def)
    then have "length (frequencyData a w) = 1024"
      by (simp add: length_frequencyData frequencyBinCount_2048)
    then show ?thesis using pitch_bound_2048 [OF f, of w] by simp
  qed
  ultimately show ?thesis by simp
qed

theorem pitch_clamp_never_active_witness:
  "analyserRef (run [Click (Granted [7]) silence] (mounted canvas0)) = Some \<lparr>fftSize = 2048\<rparr>
   \<and> maxIndex (frequencyData \<lparr>fftSize = 2048\<rparr> silence) \<le> 1023
   \<and> normalizedPitch (frequencyData \<lparr>fftSize = 2048\<rparr> silence) \<le> 1023 / 20
   \<and> pitch (run [Click (Granted [7]) silence] (mounted canvas0)) \<le> 1023 / 20"
  using pitch_clamp_never_active
    [of "[Click (Granted [7]) silence]" canvas0 "\<lparr>fftSize = 2048\<rparr>" silence]
  by (simp add: run_one_click started)

text \<open>
  The tick schedules the next one when it skips for a missing analyser or canvas and
  when it renders.
\<close>

lemma tick_reschedules_when_rendering_or_skipping:
  assumes "analyserRef s = None \<or> canvasRef s = None \<or> (\<exists>c. canvasRef s = Some c \<and> context2d c)"
  shows "pendingFrames (updateWaveform w s) = pendingFrames s @ [Suc (lastFrameId s)]
         \<and> animationFrameRef (updateWaveform w s) = Some (Suc (lastFrameId s))"
  using assms by (auto simp: updateWaveform_def split: option.splits)

text \<open>
  Claim C4 (every path of a tick, the early returns included, ends by scheduling the
  next tick), evaluated on the early return of line 68. For a canvas without a 2D
  context the tick schedules nothing: started on such a canvas the component is
  listening with no callback pending and none referenced, and a further tick leaves it
  as it is.
\<close>

theorem tick_without_context_stops_rescheduling:
  "isListening (startListening (Granted [7]) silence (mounted (canvas0\<lparr>context2d := False\<rparr>)))
   \<and> pendingFrames (startListening (Granted [7]) silence (mounted (canvas0\<lparr>context2d := False\<rparr>))) = []
   \<and> animationFrameRef
        (startListening (Granted [7]) silence (mounted (canvas0\<lparr>context2d := False\<rparr>))) = None
   \<and> updateWaveform silence
        (startListening (Granted [7]) silence (mounted (canvas0\<lparr>context2d := False\<rparr>)))
      = startListening (Granted [7]) silence (mounted (canvas0\<lparr>context2d := False\<rparr>))"
  by (simp add: startListening_Granted mounted_def canvas0_def updateWaveform_def)

text \<open>
  Claim C5, as stated: \<^verbatim>\<open>startListening\<close> called while listening opens no second
  stream. Called on the listening component with the device granted again, it leaves
  the tracks of both streams live and replaces the stored stream by the second.
\<close>

theorem second_start_opens_second_stream:
  "isListening (startListening (Granted [7]) silence (mounted canvas0))
   \<and> liveTracks (startListening (Granted [7]) silence (mounted canvas0)) = [7]
   \<and> liveTracks (startListening (Granted [8]) silence
        (startListening (Granted [7]) silence (mounted canvas0))) = [7, 8]
   \<and> mediaStreamRef (startListening (Granted [8]) silence
        (startListening (Granted [7]) silence (mounted canvas0))) = Some [8]"
  by (simp add: startListening_Granted mounted_def)

text \<open>
  Claim C5, amended. Driven by the button, with each start settled before the next
  click, every live track belongs to the one stream the component references; a click
  while listening calls \<^verbatim>\<open>stopListening\<close>, after which no track is live and no
  stream is referenced.
\<close>

theorem toggle_keeps_one_session:
  "(\<forall>t\<in>set (liveTracks (run es (mounted c))).
       \<exists>stream. mediaStreamRef (run es (mounted c)) = Some stream \<and> t \<in> set stream)
   \<and> (isListening (run es (mounted c)) \<longrightarrow>
        onClick r w (run es (mounted c)) = stopListening (run es (mounted c))
        \<and> liveTracks (onClick r w (run es (mounted c))) = []
        \<and> mediaStreamRef (onClick r w (run es (mounted c))) = None)"
proof -
  have inv: "settled (run es (mounted c))" by (rule settled_run)
  then have "\<forall>t\<in>set (liveTracks (run es (mounted c))).
       \<exists>stream. mediaStreamRef (run es (mounted c)) = Some stream \<and> t \<in> set stream"
    by (simp add: settled_def)
  moreover have "liveTracks (stopListening (run es (mounted c))) = []"
    using stopListening_releases [OF settled_single_session [OF inv]] by simp
  ultimately show ?thesis by (simp add: onClick_def)
qed

theorem toggle_keeps_one_session_witness:
  "isListening (run [Click (Granted [7]) silence] (mounted canvas0))
   \<and> liveTracks (run [Click (Granted [7]) silence] (mounted canvas0)) = [7]
   \<and> mediaStreamRef (run [Click (Granted [7]) silence] (mounted canvas0)) = Some [7]
   \<and> liveTracks (onClick (Granted [8]) silence
        (run [Click (Granted [7]) silence] (mounted canvas0))) = []
   \<and> mediaStreamRef (onClick (Granted [8]) silence
        (run [Click (Granted [7]) silence] (mounted canvas0))) = None"
  using toggle_keeps_one_session [of "[Click (Granted [7]) silence]" canvas0 "Granted [8]" silence]
  by (simp add: run_one_click started_fields onClick_def stopListening_liveTracks)

text \<open>
  Claim C6, as stated: after a failed start no resource is held. The audio context is
  constructed before the device is requested, and after the rejection the component
  still references it.
\<close>

theorem failed_start_keeps_audio_context:
  "audioContextRef (mounted canvas0) = None
   \<and> audioContexts (mounted canvas0) = 0
   \<and> audioContextRef (startListening Denied silence (mounted canvas0)) = Some 1
   \<and> audioContexts (startListening Denied silence (mounted canvas0)) = 1"
  by (simp add: startListening_Denied mounted_def)

text \<open>
  Claim C6, amended. A start whose device request is rejected leaves the listening
  state, the stored stream, the live tracks, the analyser, the pending callbacks and the
  features as they were and logs the error; the audio context constructed before the
  request stays referenced.
\<close>

theorem failed_start_acquires_no_device:
  "isListening (startListening Denied w s) = isListening s
   \<and> mediaStreamRef (startListening Denied w s) = mediaStreamRef s
   \<and> liveTracks (startListening Denied w s) = liveTracks s
   \<and> analyserRef (startListening Denied w s) = analyserRef s
   \<and> pendingFrames (startListening Denied w s) = pendingFrames s
   \<and> animationFrameRef (startListening Denied w s) = animationFrameRef s
   \<and> volume (startListening Denied w s) = volume s
   \<and> pitch (startListening Denied w s) = pitch s
   \<and> errorsLogged (startListening Denied w s) = Suc (errorsLogged s)
   \<and> audioContexts (startListening Denied w s) = Suc (audioContexts s)
   \<and> audioContextRef (startListening Denied w s) = Some (Suc (audioContexts s))"
  by (simp add: startListening_Denied)







text \<open>
  Every state of a run in which each start has settled before the next click or frame
  holds a single session.
\<close>

lemma reachable_single_session: "single_session (run es (mounted c))"
  by (rule settled_single_session [OF settled_run])


end
